theory Spec2Isabelle
  imports Main
begin

section \<open>Errors and \<open>errors.Is\<close>\<close>

text \<open>
  Go error values that occur in a run of \<open>RunServer\<close>: the sentinel
  \<open>http.ErrServerClosed\<close>, the context errors, any other failure (named by its message), and an
  error wrapping another one (\<open>fmt.Errorf("...: %w", inner)\<close>, \<open>*net.OpError\<close>).
  A Go value of type \<open>error\<close> is \<open>error option\<close> here, \<open>None\<close> being \<open>nil\<close>.
\<close>

datatype error =
    ErrServerClosed
  | DeadlineExceeded
  | Canceled
  | ErrOther string
  | Wrapped string error

text \<open>
  \<open>errors.Is(err, target)\<close> for a non-nil \<open>err\<close>: compare, then follow \<open>Unwrap\<close>.
  \<open>RunServer\<close> calls it only behind \<open>err != nil\<close>.
\<close>

fun errors_Is :: "error \<Rightarrow> error \<Rightarrow> bool" where
  "errors_Is (Wrapped msg inner) target =
     (Wrapped msg inner = target \<or> errors_Is inner target)"
| "errors_Is err target = (err = target)"

text \<open>The chain \<open>err, Unwrap(err), Unwrap(Unwrap(err)), ...\<close> of an error.\<close>

fun unwrap_chain :: "error \<Rightarrow> error list" where
  "unwrap_chain (Wrapped msg inner) = Wrapped msg inner # unwrap_chain inner"
| "unwrap_chain err = [err]"

section \<open>The server handle and the autocert set-up\<close>

record AutocertConfig =
  Domain :: string
  CacheDir :: string

text \<open>
  The fields of \<open>autocert.Manager\<close> that \<open>RunServer\<close> sets. \<open>autocert.HostWhitelist\<close> and
  \<open>autocert.DirCache\<close> are kept as constructors applied to the arguments the code passes: what
  the certificate manager does with them is the library's business.
\<close>

datatype prompt = AcceptTOS

datatype host_policy = HostWhitelist "string list"

datatype cache = DirCache string

record Manager =
  Prompt :: prompt
  HostPolicy :: host_policy
  Cache :: cache

fun whitelisted :: "host_policy \<Rightarrow> string list" where
  "whitelisted (HostWhitelist hosts) = hosts"

text \<open>
  A \<open>*tls.Config\<close> is either the one the caller left on the server (opaque, named by a number)
  or the result of \<open>m.TLSConfig()\<close> for a manager \<open>m\<close>.
\<close>

datatype tls_config = CallerTLS nat | ManagerTLS Manager

text \<open>
  Contexts, by the way they are derived: the caller's \<open>ctx\<close>, \<open>context.Background()\<close>,
  \<open>signal.NotifyContext(parent, syscall.SIGTERM)\<close>, the context of
  \<open>errgroup.WithContext(parent)\<close> and \<open>context.WithTimeout(parent, d)\<close> with \<open>d\<close> in
  nanoseconds (the unit of \<open>time.Duration\<close>).
\<close>

datatype ctx =
    Caller
  | Background
  | NotifyContext ctx
  | GroupCtx ctx
  | WithTimeout ctx nat

definition Second :: nat where
  "Second = 1000000000"

type_synonym listener = nat

text \<open>
  The fields of \<open>http.Server\<close> that \<open>RunServer\<close> reads or writes. \<open>Handler\<close> is never
  touched and is left out.
\<close>

record server =
  Addr :: string
  TLSConfig :: "tls_config option"
  BaseContext :: "(listener \<Rightarrow> ctx) option"

datatype serve_op = ListenAndServe | ListenAndServeTLS string string

text \<open>
  Lines 26 to 37 of \<open>RunServer\<close>: the choice of the serve operation, and the TLS configuration
  written to the handle when an \<open>AutocertConfig\<close> is given.
\<close>

definition tls_setup :: "server \<Rightarrow> AutocertConfig option \<Rightarrow> server \<times> serve_op" where
  "tls_setup srv crtCfg =
     (case crtCfg of
        None \<Rightarrow> (srv, ListenAndServe)
      | Some c \<Rightarrow>
          (let m = \<lparr>Prompt = AcceptTOS,
                    HostPolicy = HostWhitelist [Domain c],
                    Cache = DirCache (CacheDir c)\<rparr>
           in (srv\<lparr>TLSConfig := Some (ManagerTLS m)\<rparr>, ListenAndServeTLS [] [])))"

text \<open>
  The context of lines 40 and 44: the errgroup's context, derived from the signal context,
  derived from the caller's. It is the \<open>ctx\<close> that the closures of lines 47 and 53 capture.
\<close>

definition shared_ctx :: ctx where
  "shared_ctx = GroupCtx (NotifyContext Caller)"

section \<open>The two goroutines\<close>

text \<open>How \<open>srv.Shutdown(ctx)\<close> ends: it returns an error value, or it panics.\<close>

datatype shutdown_end = Returns "error option" | Panics

text \<open>
  Where the goroutine of lines 50 to 60 stands: blocked on \<open>ctx.Done()\<close>; inside
  \<open>srv.Shutdown\<close>; \<open>Shutdown\<close> over and the deferred calls pending; deferred calls done and the
  function leaving; returned to the errgroup with its result; gone by a panic.
\<close>

datatype seq_pc =
    SeqWaiting
  | SeqInShutdown
  | SeqDeferred shutdown_end
  | SeqLeaving shutdown_end
  | SeqReturned "error option"
  | SeqPanicked

text \<open>Where the goroutine of line 63 stands.\<close>

datatype srv_pc = SrvReady | SrvServing | SrvReturned "error option"

text \<open>
  Where \<open>RunServer\<close> itself stands once both goroutines are launched: blocked in
  \<open>threads.Wait()\<close>, returned with its result, or taken down by a panic of the goroutine.
\<close>

datatype main_pc = AtWait | Returned "error option" | Aborted

text \<open>The calls \<open>RunServer\<close> makes on its collaborators, in the order they happen.\<close>

datatype call =
    Call_Serve serve_op
  | Call_Shutdown ctx
  | Shutdown_ended shutdown_end
  | Call_cancel ctx
  | Call_Close
  | Call_stop

record state =
  caller_cancelled :: bool
  sigterm :: bool
  stopped :: bool
  grp_cancelled :: bool
  grp_err :: "error option"
  sequencer :: seq_pc
  server_thread :: srv_pc
  main_thread :: main_pc
  calls :: "call list"
  handle :: server
  listenAndServe :: serve_op

text \<open>
  Whether a context is done. The caller's context is done once the caller cancels it;
  \<open>signal.NotifyContext\<close> gives a context that is done when its parent is, when SIGTERM
  arrives, or when its \<open>stop\<close> function is called; the errgroup's context is done when its
  parent is or when the group cancels it. The expiry of a deadline is not part of the state: how
  a bounded \<open>Shutdown\<close> ends is an input of the run.
\<close>

fun ctx_done :: "state \<Rightarrow> ctx \<Rightarrow> bool" where
  "ctx_done s Caller = caller_cancelled s"
| "ctx_done s Background = False"
| "ctx_done s (NotifyContext p) = (ctx_done s p \<or> sigterm s \<or> stopped s)"
| "ctx_done s (GroupCtx p) = (ctx_done s p \<or> grp_cancelled s)"
| "ctx_done s (WithTimeout p d) = ctx_done s p"

text \<open>
  Modelled from the spec: \<open>golang.org/x/sync/errgroup\<close> is not under src/. Section 4.5: "if any
  activity fails, the first failure is retained as the cause and all sibling activities are
  cancelled (via the shared context)". \<open>group_done r\<close> is what the wrapper of \<open>threads.Go(f)\<close>
  does when \<open>f\<close> returns \<open>r\<close>: a non-nil error is kept if it is the first, and the first one
  cancels the group's context.
\<close>

definition group_done :: "error option \<Rightarrow> state \<Rightarrow> state" where
  "group_done r s =
     (case r of
        None \<Rightarrow> s
      | Some e \<Rightarrow>
          (if grp_err s = None then s\<lparr>grp_err := Some e, grp_cancelled := True\<rparr> else s))"

text \<open>Lines 66 to 69: what \<open>RunServer\<close> returns for the error \<open>threads.Wait()\<close> gave.\<close>

definition RunServer_result :: "error option \<Rightarrow> error option" where
  "RunServer_result w =
     (case w of
        None \<Rightarrow> None
      | Some err \<Rightarrow> if \<not> errors_Is err ErrServerClosed then Some err else None)"

text \<open>
  What can happen next in a run: SIGTERM arrives, the caller cancels its context, or one of
  the three goroutines takes its next step. The values that the server's methods return are
  carried by the event, as they are chosen by the server and not by \<open>RunServer\<close>.
\<close>

datatype event =
    Sigterm
  | CallerCancel
  | SeqCallShutdown
  | SeqShutdownEnds shutdown_end
  | SeqClose "error option"
  | SeqExit
  | SrvCall
  | SrvReturn "error option"
  | MainWait

text \<open>
  One step. \<open>None\<close>: the event cannot happen in this state. Nothing happens once
  \<open>RunServer\<close> has returned or the process has gone down.
  \<^item> \<open>SeqCallShutdown\<close>: line 53 lets the goroutine through when the shared context is done;
    lines 56 to 59 call \<open>srv.Shutdown\<close> with a 3-second context derived from
    \<open>context.Background()\<close>.
  \<^item> \<open>SeqClose c\<close>: the deferred calls in reverse order, \<open>cancel()\<close> of line 57 and
    \<open>srv.Close()\<close> of line 51, which returns \<open>c\<close>; \<open>defer\<close> drops that value.
  \<^item> \<open>SeqExit\<close>: the function returns what \<open>Shutdown\<close> returned and the errgroup records it, or
    the panic leaves the goroutine and \<open>RunServer\<close> does not return.
  \<^item> \<open>MainWait\<close>: \<open>threads.Wait()\<close> returns once both goroutines have returned; it cancels the
    group's context and gives the recorded error; lines 66 to 69 compute the result; the
    deferred \<open>cancel()\<close> of line 41 releases the signal subscription.
\<close>

fun step :: "event \<Rightarrow> state \<Rightarrow> state option" where
  "step Sigterm s =
     (if main_thread s = AtWait then Some (s\<lparr>sigterm := True\<rparr>) else None)"
| "step CallerCancel s =
     (if main_thread s = AtWait then Some (s\<lparr>caller_cancelled := True\<rparr>) else None)"
| "step SeqCallShutdown s =
     (if main_thread s = AtWait \<and> sequencer s = SeqWaiting \<and> ctx_done s shared_ctx
      then Some (s\<lparr>sequencer := SeqInShutdown,
                   calls := calls s @ [Call_Shutdown (WithTimeout Background (3 * Second))]\<rparr>)
      else None)"
| "step (SeqShutdownEnds e) s =
     (if main_thread s = AtWait \<and> sequencer s = SeqInShutdown
      then Some (s\<lparr>sequencer := SeqDeferred e, calls := calls s @ [Shutdown_ended e]\<rparr>)
      else None)"
| "step (SeqClose c) s =
     (case sequencer s of
        SeqDeferred e \<Rightarrow>
          (if main_thread s = AtWait
           then Some (s\<lparr>sequencer := SeqLeaving e,
                        calls := calls s @
                          [Call_cancel (WithTimeout Background (3 * Second)), Call_Close]\<rparr>)
           else None)
      | _ \<Rightarrow> None)"
| "step SeqExit s =
     (case sequencer s of
        SeqLeaving (Returns r) \<Rightarrow>
          (if main_thread s = AtWait
           then Some (group_done r (s\<lparr>sequencer := SeqReturned r\<rparr>))
           else None)
      | SeqLeaving Panics \<Rightarrow>
          (if main_thread s = AtWait
           then Some (s\<lparr>sequencer := SeqPanicked, main_thread := Aborted\<rparr>)
           else None)
      | _ \<Rightarrow> None)"
| "step SrvCall s =
     (if main_thread s = AtWait \<and> server_thread s = SrvReady
      then Some (s\<lparr>server_thread := SrvServing,
                   calls := calls s @ [Call_Serve (listenAndServe s)]\<rparr>)
      else None)"
| "step (SrvReturn r) s =
     (if main_thread s = AtWait \<and> server_thread s = SrvServing
      then Some (group_done r (s\<lparr>server_thread := SrvReturned r\<rparr>))
      else None)"
| "step MainWait s =
     (case (sequencer s, server_thread s) of
        (SeqReturned r1, SrvReturned r2) \<Rightarrow>
          (if main_thread s = AtWait
           then Some (s\<lparr>grp_cancelled := True,
                        main_thread := Returned (RunServer_result (grp_err s)),
                        stopped := True,
                        calls := calls s @ [Call_stop]\<rparr>)
           else None)
      | _ \<Rightarrow> None)"

text \<open>A run is a list of events, each one possible where it happens.\<close>

fun exec :: "event list \<Rightarrow> state \<Rightarrow> state option" where
  "exec [] s = Some s"
| "exec (ev # evs) s = (case step ev s of None \<Rightarrow> None | Some s' \<Rightarrow> exec evs s')"

text \<open>
  The state when \<open>threads.Wait()\<close> is reached (line 66), for a caller's context that is
  already cancelled (\<open>pre\<close>) or not: lines 26 to 37 have chosen the serve operation, line 47 has
  installed the base-context factory, and both goroutines are launched.
\<close>

definition init :: "bool \<Rightarrow> server \<Rightarrow> AutocertConfig option \<Rightarrow> state" where
  "init pre srv crtCfg =
     (case tls_setup srv crtCfg of
        (srv1, op) \<Rightarrow>
          \<lparr>caller_cancelled = pre, sigterm = False, stopped = False,
           grp_cancelled = False, grp_err = None,
           sequencer = SeqWaiting, server_thread = SrvReady, main_thread = AtWait,
           calls = [],
           handle = srv1\<lparr>BaseContext := Some (\<lambda>l. shared_ctx)\<rparr>,
           listenAndServe = op\<rparr>)"

text \<open>
  \<open>RunServer\<close> on a run: \<open>Some r\<close> when the events are a run at whose end the call has
  returned \<open>r\<close>, \<open>None\<close> when they are not a run or the call has not returned.
\<close>

definition RunServer ::
  "bool \<Rightarrow> server \<Rightarrow> AutocertConfig option \<Rightarrow> event list \<Rightarrow> error option option" where
  "RunServer pre srv crtCfg evs =
     (case exec evs (init pre srv crtCfg) of
        None \<Rightarrow> None
      | Some s \<Rightarrow> (case main_thread s of Returned r \<Rightarrow> Some r | _ \<Rightarrow> None))"


section \<open>Auxiliary definitions for the proofs\<close>

text \<open>The context that line 56 builds and line 59 passes to \<open>srv.Shutdown\<close>.\<close>

definition drain_ctx :: ctx where
  "drain_ctx = WithTimeout Background (3 * Second)"

text \<open>\<open>derived_from a c\<close>: context \<open>c\<close> is \<open>a\<close> or descends from it.\<close>

fun derived_from :: "ctx \<Rightarrow> ctx \<Rightarrow> bool" where
  "derived_from a (NotifyContext p) = (a = NotifyContext p \<or> derived_from a p)"
| "derived_from a (GroupCtx p) = (a = GroupCtx p \<or> derived_from a p)"
| "derived_from a (WithTimeout p d) = (a = WithTimeout p d \<or> derived_from a p)"
| "derived_from a c = (a = c)"

text \<open>The calls made by the goroutine of lines 50 to 60, by the one of line 63.\<close>

fun seq_call :: "call \<Rightarrow> bool" where
  "seq_call (Call_Shutdown c) = True"
| "seq_call (Shutdown_ended e) = True"
| "seq_call (Call_cancel c) = True"
| "seq_call Call_Close = True"
| "seq_call c = False"

fun srv_call :: "call \<Rightarrow> bool" where
  "srv_call (Call_Serve op) = True"
| "srv_call c = False"

text \<open>What the shutdown goroutine has called so far, by where it stands.\<close>

fun seq_log :: "seq_pc \<Rightarrow> call list" where
  "seq_log SeqWaiting = []"
| "seq_log SeqInShutdown = [Call_Shutdown drain_ctx]"
| "seq_log (SeqDeferred e) = [Call_Shutdown drain_ctx, Shutdown_ended e]"
| "seq_log (SeqLeaving e) =
     [Call_Shutdown drain_ctx, Shutdown_ended e, Call_cancel drain_ctx, Call_Close]"
| "seq_log (SeqReturned r) =
     [Call_Shutdown drain_ctx, Shutdown_ended (Returns r), Call_cancel drain_ctx, Call_Close]"
| "seq_log SeqPanicked =
     [Call_Shutdown drain_ctx, Shutdown_ended Panics, Call_cancel drain_ctx, Call_Close]"

fun srv_log :: "serve_op \<Rightarrow> srv_pc \<Rightarrow> call list" where
  "srv_log op SrvReady = []"
| "srv_log op pc = [Call_Serve op]"

text \<open>The shutdown goroutine has left its function: the deferred calls are behind it.\<close>

fun seq_exited :: "seq_pc \<Rightarrow> bool" where
  "seq_exited (SeqLeaving e) = True"
| "seq_exited (SeqReturned r) = True"
| "seq_exited SeqPanicked = True"
| "seq_exited pc = False"

text \<open>
  The steps each goroutine still has to take, for a \<open>Shutdown\<close> that ends with \<open>e\<close>, a
  \<open>Close\<close> that returns \<open>c\<close> and a serve operation that returns \<open>r\<close>.
\<close>

fun seq_rest :: "seq_pc \<Rightarrow> shutdown_end \<Rightarrow> error option \<Rightarrow> event list" where
  "seq_rest SeqWaiting e c = [SeqCallShutdown, SeqShutdownEnds e, SeqClose c, SeqExit]"
| "seq_rest SeqInShutdown e c = [SeqShutdownEnds e, SeqClose c, SeqExit]"
| "seq_rest (SeqDeferred e') e c = [SeqClose c, SeqExit]"
| "seq_rest (SeqLeaving e') e c = [SeqExit]"
| "seq_rest pc e c = []"

fun srv_rest :: "srv_pc \<Rightarrow> error option \<Rightarrow> event list" where
  "srv_rest SrvReady r = [SrvCall, SrvReturn r]"
| "srv_rest SrvServing r = [SrvReturn r]"
| "srv_rest pc r = []"

text \<open>The same event, with \<open>c\<close> for what \<open>srv.Close()\<close> returns.\<close>

fun close_returning :: "error option \<Rightarrow> event \<Rightarrow> event" where
  "close_returning c (SeqClose c') = SeqClose c"
| "close_returning c ev = ev"

text \<open>The shutdown of a goroutine can still panic.\<close>

fun panicking :: "seq_pc \<Rightarrow> bool" where
  "panicking (SeqDeferred Panics) = True"
| "panicking (SeqLeaving Panics) = True"
| "panicking SeqPanicked = True"
| "panicking pc = False"

text \<open>Invariants.\<close>

definition returned_ok :: "state \<Rightarrow> bool" where
  "returned_ok s =
     (\<forall>out. main_thread s = Returned out \<longrightarrow>
        out = RunServer_result (grp_err s) \<and> stopped s
        \<and> (\<exists>r1 r2. sequencer s = SeqReturned r1 \<and> server_thread s = SrvReturned r2))"

definition undisturbed :: "state \<Rightarrow> bool" where
  "undisturbed s =
     (\<not> caller_cancelled s \<and> \<not> sigterm s
      \<and> (main_thread s = AtWait \<longrightarrow> \<not> stopped s)
      \<and> (case server_thread s of
            SrvReturned r \<Rightarrow> grp_err s = r
          | _ \<Rightarrow> grp_err s = None)
      \<and> (grp_err s = None \<longrightarrow>
            sequencer s = SeqWaiting \<and> (main_thread s = AtWait \<longrightarrow> \<not> grp_cancelled s)))"

definition keeps_error :: "error \<Rightarrow> state \<Rightarrow> bool" where
  "keeps_error e s =
     (grp_err s = Some e
      \<and> (\<forall>out. main_thread s = Returned out \<longrightarrow> out = RunServer_result (Some e)))"

definition log_ok :: "state \<Rightarrow> bool" where
  "log_ok s =
     (filter seq_call (calls s) = seq_log (sequencer s)
      \<and> filter srv_call (calls s) = srv_log (listenAndServe s) (server_thread s)
      \<and> (case main_thread s of
            Returned out \<Rightarrow> (\<exists>cs. calls s = cs @ [Call_stop] \<and> Call_stop \<notin> set cs)
          | _ \<Rightarrow> Call_stop \<notin> set (calls s))
      \<and> (sequencer s \<noteq> SeqWaiting \<longrightarrow> ctx_done s shared_ctx))"

definition same_setup :: "state \<Rightarrow> state \<Rightarrow> bool" where
  "same_setup s0 s = (handle s = handle s0 \<and> listenAndServe s = listenAndServe s0)"

text \<open>A server and an autocert configuration to run the model on.\<close>

definition srv0 :: server where
  "srv0 = \<lparr>Addr = '':8080'', TLSConfig = Some (CallerTLS 7), BaseContext = None\<rparr>"

definition cfg0 :: AutocertConfig where
  "cfg0 = \<lparr>Domain = ''example.org'', CacheDir = ''/var/cache/autocert''\<rparr>"

section \<open>Invariants of a run\<close>


lemma exec_append: "exec (xs @ ys) s = (case exec xs s of None \<Rightarrow> None | Some s' \<Rightarrow> exec ys s')"
  by (induction xs arbitrary: s) (auto split: option.splits)

lemma exec_invariant:
  assumes step: "\<And>ev s s'. P s \<Longrightarrow> step ev s = Some s' \<Longrightarrow> P s'"
    and start: "P s"
    and run: "exec evs s = Some s'"
  shows "P s'"
  using start run
proof (induction evs arbitrary: s)
  case Nil
  then show ?case by simp
next
  case (Cons ev evs)
  then show ?case
    by (auto split: option.splits dest: step)
qed

lemma exec_invariant_on:
  assumes step: "\<And>ev s s'. ev \<in> E \<Longrightarrow> P s \<Longrightarrow> step ev s = Some s' \<Longrightarrow> P s'"
    and evs: "set evs \<subseteq> E"
    and start: "P s"
    and run: "exec evs s = Some s'"
  shows "P s'"
  using evs start run
proof (induction evs arbitrary: s)
  case Nil
  then show ?case by simp
next
  case (Cons ev evs)
  then show ?case
    by (auto split: option.splits dest: step)
qed

lemmas pc_splits =
  if_splits seq_pc.splits shutdown_end.splits srv_pc.splits option.splits main_pc.splits

lemma step_alive: "step ev s = Some s' \<Longrightarrow> main_thread s = AtWait"
  by (cases ev) (auto split: pc_splits)

lemma step_returned_ok: "returned_ok s \<Longrightarrow> step ev s = Some s' \<Longrightarrow> returned_ok s'"
  by (cases ev) (auto simp: returned_ok_def group_done_def split: pc_splits)

lemma init_returned_ok: "returned_ok (init pre srv crtCfg)"
  by (simp add: returned_ok_def init_def split: prod.splits)

lemma run_returned_ok: "exec evs (init pre srv crtCfg) = Some s \<Longrightarrow> returned_ok s"
  by (rule exec_invariant [where P = returned_ok])
     (auto intro: step_returned_ok init_returned_ok)

lemma step_undisturbed:
  "ev \<in> - {Sigterm, CallerCancel} \<Longrightarrow> undisturbed s \<Longrightarrow> step ev s = Some s' \<Longrightarrow> undisturbed s'"
  by (cases ev) (auto simp: undisturbed_def group_done_def shared_ctx_def split: pc_splits)

lemma init_undisturbed: "undisturbed (init False srv crtCfg)"
  by (simp add: undisturbed_def init_def split: prod.splits)

lemma run_undisturbed:
  assumes "exec evs (init False srv crtCfg) = Some s"
    and "Sigterm \<notin> set evs" and "CallerCancel \<notin> set evs"
  shows "undisturbed s"
proof (rule exec_invariant_on [where P = undisturbed and E = "- {Sigterm, CallerCancel}"])
  show "set evs \<subseteq> - {Sigterm, CallerCancel}" using assms by auto
  show "undisturbed (init False srv crtCfg)" by (rule init_undisturbed)
  show "exec evs (init False srv crtCfg) = Some s" by fact
qed (rule step_undisturbed)

lemma errors_Is_chain: "errors_Is err target \<longleftrightarrow> target \<in> set (unwrap_chain err)"
  by (induction err) auto

lemma step_keeps_error: "keeps_error e s \<Longrightarrow> step ev s = Some s' \<Longrightarrow> keeps_error e s'"
  by (cases ev) (auto simp: keeps_error_def group_done_def split: pc_splits)

lemma run_keeps_error:
  assumes "grp_err s = Some e" and "main_thread s = AtWait"
    and "exec evs s = Some s'" and "main_thread s' = Returned out"
  shows "out = RunServer_result (Some e)"
proof -
  have "keeps_error e s" using assms(1,2) by (simp add: keeps_error_def)
  then have "keeps_error e s'"
    using assms(3) by (rule_tac exec_invariant [where P = "keeps_error e"])
      (auto intro: step_keeps_error)
  then show ?thesis using assms(4) by (simp add: keeps_error_def)
qed

lemma step_log_ok: "log_ok s \<Longrightarrow> step ev s = Some s' \<Longrightarrow> log_ok s'"
proof (cases ev)
  case Sigterm
  assume "log_ok s" "step ev s = Some s'"
  then show ?thesis using Sigterm
    by (auto simp: log_ok_def shared_ctx_def split: if_splits main_pc.splits)
next
  case CallerCancel
  assume "log_ok s" "step ev s = Some s'"
  then show ?thesis using CallerCancel
    by (auto simp: log_ok_def shared_ctx_def split: if_splits main_pc.splits)
next
  case SeqCallShutdown
  assume "log_ok s" "step ev s = Some s'"
  then show ?thesis using SeqCallShutdown
    by (auto simp: log_ok_def shared_ctx_def drain_ctx_def split: if_splits)
next
  case (SeqShutdownEnds e)
  assume "log_ok s" "step ev s = Some s'"
  then show ?thesis using SeqShutdownEnds
    by (auto simp: log_ok_def shared_ctx_def drain_ctx_def split: if_splits)
next
  case (SeqClose c)
  assume "log_ok s" "step ev s = Some s'"
  then show ?thesis using SeqClose
    by (cases "sequencer s") (auto simp: log_ok_def shared_ctx_def drain_ctx_def split: if_splits)
next
  case SeqExit
  assume a: "log_ok s" "step ev s = Some s'"
  show ?thesis
  proof (cases "sequencer s")
    case (SeqLeaving e)
    then show ?thesis using a SeqExit
      by (cases e; cases "grp_err s")
         (auto simp: log_ok_def shared_ctx_def drain_ctx_def group_done_def
               split: if_splits option.splits)
  qed (use a SeqExit in auto)
next
  case SrvCall
  assume "log_ok s" "step ev s = Some s'"
  then show ?thesis using SrvCall
    by (auto simp: log_ok_def shared_ctx_def split: if_splits)
next
  case (SrvReturn r)
  assume "log_ok s" "step ev s = Some s'"
  then show ?thesis using SrvReturn
    by (cases r; cases "grp_err s")
       (auto simp: log_ok_def shared_ctx_def group_done_def split: if_splits)
next
  case MainWait
  assume "log_ok s" "step ev s = Some s'"
  then show ?thesis using MainWait
    by (cases "sequencer s"; cases "server_thread s")
       (auto simp: log_ok_def shared_ctx_def split: if_splits)
qed

lemma init_log_ok: "log_ok (init pre srv crtCfg)"
  by (simp add: log_ok_def init_def split: prod.splits)

lemma run_log_ok: "exec evs (init pre srv crtCfg) = Some s \<Longrightarrow> log_ok s"
  by (rule exec_invariant [where P = log_ok]) (auto intro: step_log_ok init_log_ok)

lemma step_same_setup: "same_setup s0 s \<Longrightarrow> step ev s = Some s' \<Longrightarrow> same_setup s0 s'"
  by (cases ev) (auto simp: same_setup_def group_done_def split: pc_splits)

lemma same_setup_refl: "same_setup s0 s0"
  by (simp add: same_setup_def)

lemma run_same_setup: "exec evs s0 = Some s \<Longrightarrow> same_setup s0 s"
  by (rule exec_invariant [where P = "same_setup s0"])
     (auto intro: step_same_setup same_setup_refl)

lemma RunServer_split:
  assumes "exec evs1 (init pre srv crtCfg) = Some s1" and "step ev s1 = Some s2"
  shows "RunServer pre srv crtCfg (evs1 @ ev # evs2) =
           (case exec evs2 s2 of
              None \<Rightarrow> None
            | Some s \<Rightarrow> (case main_thread s of Returned r \<Rightarrow> Some r | _ \<Rightarrow> None))"
  using assms by (simp add: RunServer_def exec_append)



lemma count_list_filter: "P x \<Longrightarrow> count_list (filter P xs) x = count_list xs x"
  by (induction xs) auto

lemma step_close_returning: "step (close_returning c ev) s = step ev s"
  by (cases ev) simp_all

lemma exec_close_returning: "exec (map (close_returning c) evs) s = exec evs s"
  by (induction evs arbitrary: s) (auto simp: step_close_returning split: option.splits)

lemma step_flags:
  "step ev s = Some s' \<Longrightarrow>
     (caller_cancelled s \<or> ev = CallerCancel \<longrightarrow> caller_cancelled s')
     \<and> (sigterm s \<or> ev = Sigterm \<longrightarrow> sigterm s')"
  by (cases ev) (auto simp: group_done_def split: pc_splits)

lemma run_flags:
  "exec evs s = Some s' \<Longrightarrow>
     (caller_cancelled s \<or> CallerCancel \<in> set evs \<longrightarrow> caller_cancelled s')
     \<and> (sigterm s \<or> Sigterm \<in> set evs \<longrightarrow> sigterm s')"
proof (induction evs arbitrary: s)
  case Nil
  then show ?case by simp
next
  case (Cons ev evs)
  from Cons.prems obtain s1 where s1: "step ev s = Some s1" "exec evs s1 = Some s'"
    by (auto split: option.splits)
  show ?case
    using step_flags [OF s1(1)] Cons.IH [OF s1(2)] by auto
qed

lemma group_done_kept: "grp_err s = Some e \<Longrightarrow> group_done r s = s"
  by (cases r) (simp_all add: group_done_def)

lemma finish_by_sequencer:
  assumes "main_thread s = AtWait" and "server_thread s = SrvReturned r0"
    and "grp_err s = Some e" and "grp_cancelled s" and "\<not> panicking (sequencer s)"
  shows "\<exists>s'. exec (seq_rest (sequencer s) (Returns r) c @ [MainWait]) s = Some s'
              \<and> main_thread s' = Returned (RunServer_result (Some e))"
proof (cases "sequencer s")
  case (SeqDeferred x)
  then show ?thesis using assms by (cases x) (simp_all add: group_done_kept)
next
  case (SeqLeaving x)
  then show ?thesis using assms by (cases x) (simp_all add: group_done_kept)
qed (use assms in \<open>simp_all add: group_done_kept shared_ctx_def\<close>)

lemma finish_by_server:
  assumes "main_thread s = AtWait" and "sequencer s = SeqReturned r0"
    and "grp_err s = Some e"
  shows "\<exists>s'. exec (srv_rest (server_thread s) r @ [MainWait]) s = Some s'
              \<and> main_thread s' = Returned (RunServer_result (Some e))"
  using assms by (cases "server_thread s") (simp_all add: group_done_kept)

lemma RunServer_finish:
  assumes "exec evs1 (init pre srv crtCfg) = Some s1" and "step ev s1 = Some s2"
    and "exec evs2 s2 = Some s'" and "main_thread s' = Returned out"
  shows "RunServer pre srv crtCfg (evs1 @ ev # evs2) = Some out"
  using assms by (simp add: RunServer_split)

lemma RunServer_continue:
  assumes "exec evs1 (init pre srv crtCfg) = Some s1" and "step ev s1 = Some s2"
    and "RunServer pre srv crtCfg (evs1 @ ev # evs2) = Some out"
  shows "\<exists>s. exec evs2 s2 = Some s \<and> main_thread s = Returned out"
  using assms(3) unfolding RunServer_split [OF assms(1,2)]
  by (auto split: option.splits main_pc.splits)

lemmas run_defs =
  RunServer_def init_def tls_setup_def group_done_def shared_ctx_def RunServer_result_def

section \<open>The claims\<close>

text \<open>
  C1. Whenever the error that \<open>threads.Wait()\<close> gives is, or wraps,
  \<open>http.ErrServerClosed\<close>, \<open>RunServer\<close> returns nil, and no error that \<open>RunServer\<close>
  returns is or wraps that sentinel. In particular, in a run without SIGTERM and without a
  cancellation by the caller in which the serve operation ends with "server closed" (the server
  closed itself), the call returns nil; and such a run does return: the serve operation ends
  with the sentinel, the shutdown goroutine wakes up, and once \<open>Shutdown\<close> and \<open>Close\<close> are
  back (whatever they return) \<open>RunServer\<close> returns nil.
\<close>

theorem server_closed_is_suppressed:
  assumes run: "exec evs (init pre srv crtCfg) = Some s"
    and ret: "main_thread s = Returned out"
  shows "(\<forall>e. grp_err s = Some e \<and> errors_Is e ErrServerClosed \<longrightarrow>
            RunServer pre srv crtCfg evs = Some None)
       \<and> (\<forall>e. RunServer pre srv crtCfg evs = Some (Some e) \<longrightarrow> \<not> errors_Is e ErrServerClosed)
       \<and> (\<not> pre \<and> Sigterm \<notin> set evs \<and> CallerCancel \<notin> set evs
           \<and> (\<exists>e. server_thread s = SrvReturned (Some e) \<and> errors_Is e ErrServerClosed) \<longrightarrow>
            RunServer pre srv crtCfg evs = Some None)
       \<and> (\<forall>e r c. errors_Is e ErrServerClosed \<longrightarrow>
            RunServer False srv crtCfg
              [SrvCall, SrvReturn (Some e), SeqCallShutdown, SeqShutdownEnds (Returns r),
               SeqClose c, SeqExit, MainWait] = Some None)"
proof -
  have out: "out = RunServer_result (grp_err s)"
    using run_returned_ok [OF run] ret by (simp add: returned_ok_def)
  have rs: "RunServer pre srv crtCfg evs = Some out"
    using run ret by (simp add: RunServer_def)
  have a: "out = None" if "grp_err s = Some e" "errors_Is e ErrServerClosed" for e
    using that out by (simp add: RunServer_result_def)
  have b: "\<not> errors_Is e ErrServerClosed" if "out = Some e" for e
    using that out by (auto simp: RunServer_result_def split: option.splits if_splits)
  have c: "out = None"
    if q: "\<not> pre" "Sigterm \<notin> set evs" "CallerCancel \<notin> set evs"
      and sv: "server_thread s = SrvReturned (Some e)" "errors_Is e ErrServerClosed" for e
  proof -
    have "undisturbed s" using run_undisturbed run q by simp
    then have "grp_err s = Some e" using sv by (simp add: undisturbed_def)
    then show ?thesis using a sv by blast
  qed
  have d: "RunServer False srv crtCfg
              [SrvCall, SrvReturn (Some e), SeqCallShutdown, SeqShutdownEnds (Returns r),
               SeqClose c, SeqExit, MainWait] = Some None"
    if "errors_Is e ErrServerClosed" for e r c
    using that by (cases r) (simp_all add: run_defs split: option.splits prod.splits)
  show ?thesis using a b c d rs by auto
qed

theorem server_closed_is_suppressed_witness:
  "exec [SrvCall, SrvReturn (Some (Wrapped ''serve'' ErrServerClosed)), SeqCallShutdown,
         SeqShutdownEnds (Returns None), SeqClose None, SeqExit, MainWait]
        (init False srv0 None) \<noteq> None
   \<and> RunServer False srv0 None
        [SrvCall, SrvReturn (Some (Wrapped ''serve'' ErrServerClosed)), SeqCallShutdown,
         SeqShutdownEnds (Returns None), SeqClose None, SeqExit, MainWait] = Some None"
proof -
  let ?evs = "[SrvCall, SrvReturn (Some (Wrapped ''serve'' ErrServerClosed)), SeqCallShutdown,
               SeqShutdownEnds (Returns None), SeqClose None, SeqExit, MainWait]"
  let ?s = "the (exec ?evs (init False srv0 None))"
  have run: "exec ?evs (init False srv0 None) = Some ?s"
    by (simp add: run_defs srv0_def)
  have ret: "main_thread ?s = Returned None"
    by (simp add: run_defs srv0_def)
  have sv: "server_thread ?s = SrvReturned (Some (Wrapped ''serve'' ErrServerClosed))"
    by (simp add: run_defs srv0_def)
  have ne: "exec ?evs (init False srv0 None) \<noteq> None"
    by (simp add: run_defs srv0_def)
  have quiet: "Sigterm \<notin> set ?evs" "CallerCancel \<notin> set ?evs"
    by simp_all
  have closed: "errors_Is (Wrapped ''serve'' ErrServerClosed) ErrServerClosed"
    by simp
  have "\<not> False \<and> Sigterm \<notin> set ?evs \<and> CallerCancel \<notin> set ?evs
          \<and> (\<exists>e. server_thread ?s = SrvReturned (Some e) \<and> errors_Is e ErrServerClosed) \<longrightarrow>
        RunServer False srv0 None ?evs = Some None"
    using server_closed_is_suppressed [OF run ret] by (elim conjE)
  then have "RunServer False srv0 None ?evs = Some None"
    using quiet closed sv by blast
  then show ?thesis using ne by blast
qed

text \<open>
  C10. The test of lines 66 to 69 follows the whole chain of the error and does not look at
  where the error came from. If "server closed" is anywhere in the chain of an error \<open>e\<close>,
  and \<open>e\<close> is the first error the group records, by the return of the serve operation or by
  the return of the shutdown goroutine with the error of \<open>srv.Shutdown\<close>, then every run that
  goes on from there and returns, returns nil.
\<close>

theorem suppression_ignores_origin:
  assumes chain: "ErrServerClosed \<in> set (unwrap_chain e)"
    and run: "exec evs1 (init pre srv crtCfg) = Some s1"
    and first: "grp_err s1 = None"
    and origin: "ev = SrvReturn (Some e) \<or> ev = SeqExit \<and> sequencer s1 = SeqLeaving (Returns (Some e))"
    and step: "step ev s1 = Some s2"
  shows "RunServer_result (Some e) = None
       \<and> grp_err s2 = Some e
       \<and> (\<forall>evs2 out. RunServer pre srv crtCfg (evs1 @ ev # evs2) = Some out \<longrightarrow> out = None)"
proof -
  have is_closed: "errors_Is e ErrServerClosed"
    using chain by (simp add: errors_Is_chain)
  then have res: "RunServer_result (Some e) = None"
    by (simp add: RunServer_result_def)
  have alive: "main_thread s1 = AtWait"
    using step by (rule step_alive)
  have rec: "grp_err s2 = Some e \<and> main_thread s2 = AtWait"
    using origin step first alive
    by (auto simp: group_done_def split: if_splits)
  have "out = None" if "RunServer pre srv crtCfg (evs1 @ ev # evs2) = Some out" for evs2 out
  proof -
    from that obtain s where s: "exec evs2 s2 = Some s" "main_thread s = Returned out"
      unfolding RunServer_split [OF run step]
      by (auto split: option.splits main_pc.splits)
    show ?thesis
      using run_keeps_error [of s2 e evs2 s out] rec s res by simp
  qed
  then show ?thesis using res rec by blast
qed

theorem suppression_ignores_origin_witness:
  "ErrServerClosed \<in> set (unwrap_chain (Wrapped ''outer'' (Wrapped ''inner'' ErrServerClosed)))
   \<and> RunServer False srv0 None
       ([SrvCall, Sigterm, SeqCallShutdown,
         SeqShutdownEnds (Returns (Some (Wrapped ''outer'' (Wrapped ''inner'' ErrServerClosed)))),
         SeqClose None] @ SeqExit # [SrvReturn (Some (ErrOther ''accept'')), MainWait])
     = Some None"
proof -
  let ?e = "Wrapped ''outer'' (Wrapped ''inner'' ErrServerClosed)"
  let ?evs1 = "[SrvCall, Sigterm, SeqCallShutdown, SeqShutdownEnds (Returns (Some ?e)),
                SeqClose None]"
  let ?evs2 = "[SrvReturn (Some (ErrOther ''accept'')), MainWait]"
  let ?s1 = "the (exec ?evs1 (init False srv0 None))"
  let ?s2 = "the (step SeqExit ?s1)"
  have chain: "ErrServerClosed \<in> set (unwrap_chain ?e)" by simp
  have run: "exec ?evs1 (init False srv0 None) = Some ?s1"
    by (simp add: run_defs srv0_def)
  have first: "grp_err ?s1 = None"
    by (simp add: run_defs srv0_def)
  have origin: "SeqExit = SrvReturn (Some ?e)
                  \<or> SeqExit = SeqExit \<and> sequencer ?s1 = SeqLeaving (Returns (Some ?e))"
    by (simp add: run_defs srv0_def)
  have step: "step SeqExit ?s1 = Some ?s2"
    by (simp add: run_defs srv0_def)
  have ret: "RunServer False srv0 None (?evs1 @ SeqExit # ?evs2) \<noteq> None"
    by (simp add: run_defs srv0_def)
  have "\<forall>evs2 out. RunServer False srv0 None (?evs1 @ SeqExit # evs2) = Some out \<longrightarrow> out = None"
    using suppression_ignores_origin [OF chain run first origin step] by blast
  then have "RunServer False srv0 None (?evs1 @ SeqExit # ?evs2) = Some None"
    using ret by blast
  then show ?thesis using chain by blast
qed


text \<open>
  C2, as stated, fails: the errgroup keeps the first error only. With SIGTERM received and the
  graceful shutdown timed out before the serve operation comes back with a failure of its own,
  \<open>RunServer\<close> returns the deadline error and not the failure of the serve operation.
\<close>

theorem serve_failure_counterexample:
  "RunServer False srv0 None
     [SrvCall, Sigterm, SeqCallShutdown, SeqShutdownEnds (Returns (Some DeadlineExceeded)),
      SeqClose None, SeqExit, SrvReturn (Some (ErrOther ''accept: too many open files'')),
      MainWait]
     = Some (Some DeadlineExceeded)
   \<and> \<not> errors_Is (ErrOther ''accept: too many open files'') ErrServerClosed"
  by (simp add: run_defs srv0_def)

text \<open>
  C2, amended. When the serve operation fails with an error that is not "server closed" and
  the group has recorded no error before (as is always the case when neither SIGTERM nor a
  cancellation by the caller came first), then: the failure is recorded and cancels the shared
  context; a shutdown goroutine still waiting can go on; every run that goes on from there and
  returns, returns that failure; and the run that lets the shutdown goroutine finish, whatever
  \<open>Shutdown\<close> and \<open>Close\<close> return, does return it. (How long \<open>Shutdown\<close> takes is
  outside the model.)
\<close>

theorem serve_failure_first_is_reported:
  assumes run: "exec evs1 (init pre srv crtCfg) = Some s1"
    and first: "grp_err s1 = None \<or> (\<not> pre \<and> Sigterm \<notin> set evs1 \<and> CallerCancel \<notin> set evs1)"
    and genuine: "\<not> errors_Is e ErrServerClosed"
    and step: "step (SrvReturn (Some e)) s1 = Some s2"
  shows "grp_err s2 = Some e
       \<and> ctx_done s2 shared_ctx
       \<and> (sequencer s2 = SeqWaiting \<longrightarrow> step SeqCallShutdown s2 \<noteq> None)
       \<and> (\<forall>evs2 out. RunServer pre srv crtCfg (evs1 @ SrvReturn (Some e) # evs2) = Some out \<longrightarrow>
            out = Some e)
       \<and> (\<forall>r c. \<not> panicking (sequencer s2) \<longrightarrow>
            RunServer pre srv crtCfg
              (evs1 @ SrvReturn (Some e) # seq_rest (sequencer s2) (Returns r) c @ [MainWait])
            = Some (Some e))"
proof -
  have serving: "main_thread s1 = AtWait" "server_thread s1 = SrvServing"
    using step by (auto split: if_splits)
  have none: "grp_err s1 = None"
  proof (rule disjE [OF first])
    assume "\<not> pre \<and> Sigterm \<notin> set evs1 \<and> CallerCancel \<notin> set evs1"
    then have "undisturbed s1" using run_undisturbed run by simp
    then show ?thesis using serving by (simp add: undisturbed_def)
  qed
  have s2: "s2 = s1\<lparr>server_thread := SrvReturned (Some e), grp_err := Some e,
                      grp_cancelled := True\<rparr>"
    using step serving none by (simp add: group_done_def)
  have res: "RunServer_result (Some e) = Some e"
    using genuine by (simp add: RunServer_result_def)
  have facts: "grp_err s2 = Some e" "grp_cancelled s2" "main_thread s2 = AtWait"
    "server_thread s2 = SrvReturned (Some e)"
    using s2 serving by simp_all
  have cancelled: "ctx_done s2 shared_ctx"
    using facts by (simp add: shared_ctx_def)
  have wake: "step SeqCallShutdown s2 \<noteq> None" if "sequencer s2 = SeqWaiting"
    using that facts cancelled by simp
  have any: "out = Some e"
    if "RunServer pre srv crtCfg (evs1 @ SrvReturn (Some e) # evs2) = Some out" for evs2 out
  proof -
    from RunServer_continue [OF run step that]
    obtain s where "exec evs2 s2 = Some s" "main_thread s = Returned out" by blast
    then show ?thesis
      using run_keeps_error [of s2 e evs2 s out] facts res by simp
  qed
  have fin: "RunServer pre srv crtCfg
               (evs1 @ SrvReturn (Some e) # seq_rest (sequencer s2) (Returns r) c @ [MainWait])
             = Some (Some e)"
    if "\<not> panicking (sequencer s2)" for r c
  proof -
    from finish_by_sequencer [OF facts(3) facts(4) facts(1) facts(2) that, of r c]
    obtain s' where "exec (seq_rest (sequencer s2) (Returns r) c @ [MainWait]) s2 = Some s'"
      "main_thread s' = Returned (Some e)"
      using res by auto
    then show ?thesis by (rule RunServer_finish [OF run step])
  qed
  show ?thesis using facts(1) cancelled wake any fin by blast
qed

theorem serve_failure_first_is_reported_witness:
  "\<not> errors_Is (ErrOther ''listen tcp :8080: bind: address already in use'') ErrServerClosed
   \<and> RunServer False srv0 None
       ([SrvCall] @ SrvReturn (Some (ErrOther ''listen tcp :8080: bind: address already in use''))
          # seq_rest SeqWaiting (Returns None) None @ [MainWait])
     = Some (Some (ErrOther ''listen tcp :8080: bind: address already in use''))"
proof -
  let ?e = "ErrOther ''listen tcp :8080: bind: address already in use''"
  let ?s1 = "the (exec [SrvCall] (init False srv0 None))"
  let ?s2 = "the (step (SrvReturn (Some ?e)) ?s1)"
  have run: "exec [SrvCall] (init False srv0 None) = Some ?s1"
    by (simp add: run_defs srv0_def)
  have first: "grp_err ?s1 = None
                 \<or> (\<not> False \<and> Sigterm \<notin> set [SrvCall] \<and> CallerCancel \<notin> set [SrvCall])"
    by simp
  have genuine: "\<not> errors_Is ?e ErrServerClosed" by simp
  have step: "step (SrvReturn (Some ?e)) ?s1 = Some ?s2"
    by (simp add: run_defs srv0_def)
  have pc: "sequencer ?s2 = SeqWaiting"
    by (simp add: run_defs srv0_def)
  have "\<forall>r c. \<not> panicking (sequencer ?s2) \<longrightarrow>
          RunServer False srv0 None
            ([SrvCall] @ SrvReturn (Some ?e) # seq_rest (sequencer ?s2) (Returns r) c @ [MainWait])
          = Some (Some ?e)"
    using serve_failure_first_is_reported [OF run first genuine step] by (elim conjE)
  then have "RunServer False srv0 None
            ([SrvCall] @ SrvReturn (Some ?e) # seq_rest SeqWaiting (Returns None) None @ [MainWait])
          = Some (Some ?e)"
    unfolding pc by simp
  then show ?thesis using genuine by blast
qed

text \<open>
  C5, as stated, fails: when SIGTERM starts the shutdown, the serve operation comes back with
  "server closed" while \<open>Shutdown\<close> is still draining; that sentinel is the first error the
  group records, the deadline error of \<open>Shutdown\<close> is dropped by the group, and \<open>RunServer\<close>
  returns nil.
\<close>

theorem shutdown_timeout_counterexample:
  "RunServer False srv0 None
     [SrvCall, Sigterm, SeqCallShutdown, SrvReturn (Some ErrServerClosed),
      SeqShutdownEnds (Returns (Some DeadlineExceeded)), SeqClose None, SeqExit, MainWait]
     = Some None"
  by (simp add: run_defs srv0_def)

text \<open>
  C5, amended. When the shutdown goroutine returns the error \<open>e\<close> of \<open>srv.Shutdown\<close> to the
  group: if the group has recorded no error before and \<open>e\<close> is not "server closed", every run
  that goes on from there and returns, returns \<open>e\<close>, and the run that lets the serve operation
  come back, whatever it returns, does return \<open>e\<close>; if the group has already recorded an error
  that is or wraps "server closed", every such run returns nil. In both cases the server has
  been force-closed once by then.
\<close>

theorem shutdown_error_first_is_reported:
  assumes run: "exec evs1 (init pre srv crtCfg) = Some s1"
    and leaving: "sequencer s1 = SeqLeaving (Returns (Some e))"
    and step: "step SeqExit s1 = Some s2"
  shows "(grp_err s1 = None \<and> \<not> errors_Is e ErrServerClosed \<longrightarrow>
            (\<forall>evs2 out. RunServer pre srv crtCfg (evs1 @ SeqExit # evs2) = Some out \<longrightarrow>
               out = Some e)
            \<and> (\<forall>r. RunServer pre srv crtCfg
                      (evs1 @ SeqExit # srv_rest (server_thread s2) r @ [MainWait])
                    = Some (Some e)))
       \<and> (\<forall>e0. grp_err s1 = Some e0 \<and> errors_Is e0 ErrServerClosed \<longrightarrow>
            (\<forall>evs2 out. RunServer pre srv crtCfg (evs1 @ SeqExit # evs2) = Some out \<longrightarrow>
               out = None))
       \<and> count_list (calls s1) Call_Close = 1"
proof -
  have alive: "main_thread s1 = AtWait"
    using step by (rule step_alive)
  have s2: "s2 = group_done (Some e) (s1\<lparr>sequencer := SeqReturned (Some e)\<rparr>)"
    using step leaving alive by simp
  have pcs: "main_thread s2 = AtWait" "sequencer s2 = SeqReturned (Some e)"
    using s2 alive by (simp_all add: group_done_def)
  have a: "out = Some e"
    if "grp_err s1 = None" "\<not> errors_Is e ErrServerClosed"
      "RunServer pre srv crtCfg (evs1 @ SeqExit # evs2) = Some out" for evs2 out
  proof -
    have rec: "grp_err s2 = Some e" using s2 that(1) by (simp add: group_done_def)
    from RunServer_continue [OF run step that(3)]
    obtain s where "exec evs2 s2 = Some s" "main_thread s = Returned out" by blast
    then show ?thesis
      using run_keeps_error [of s2 e evs2 s out] rec pcs that(2)
      by (simp add: RunServer_result_def)
  qed
  have b: "RunServer pre srv crtCfg
             (evs1 @ SeqExit # srv_rest (server_thread s2) r @ [MainWait]) = Some (Some e)"
    if h: "grp_err s1 = None" "\<not> errors_Is e ErrServerClosed" for r
  proof -
    have rec: "grp_err s2 = Some e" using s2 h(1) by (simp add: group_done_def)
    have res: "RunServer_result (Some e) = Some e"
      using h(2) by (simp add: RunServer_result_def)
    from finish_by_server [OF pcs(1) pcs(2) rec, of r]
    obtain s' where "exec (srv_rest (server_thread s2) r @ [MainWait]) s2 = Some s'"
      "main_thread s' = Returned (Some e)"
      using res by auto
    then show ?thesis by (rule RunServer_finish [OF run step])
  qed
  have c: "out = None"
    if "grp_err s1 = Some e0" "errors_Is e0 ErrServerClosed"
      "RunServer pre srv crtCfg (evs1 @ SeqExit # evs2) = Some out" for e0 evs2 out
  proof -
    have rec: "grp_err s2 = Some e0" using s2 that(1) by (simp add: group_done_def)
    from RunServer_continue [OF run step that(3)]
    obtain s where "exec evs2 s2 = Some s" "main_thread s = Returned out" by blast
    then show ?thesis
      using run_keeps_error [of s2 e0 evs2 s out] rec pcs that(2)
      by (simp add: RunServer_result_def)
  qed
  have "filter seq_call (calls s1) = seq_log (sequencer s1)"
    using run_log_ok [OF run] by (simp add: log_ok_def)
  then have "count_list (filter seq_call (calls s1)) Call_Close = 1"
    using leaving by simp
  then have d: "count_list (calls s1) Call_Close = 1"
    by (simp add: count_list_filter)
  show ?thesis using a b c d by blast
qed

theorem shutdown_error_first_is_reported_witness:
  "RunServer False srv0 None
     ([SrvCall, Sigterm, SeqCallShutdown, SeqShutdownEnds (Returns (Some DeadlineExceeded)),
       SeqClose None] @ SeqExit # srv_rest SrvServing (Some ErrServerClosed) @ [MainWait])
     = Some (Some DeadlineExceeded)"
proof -
  let ?evs1 = "[SrvCall, Sigterm, SeqCallShutdown,
                SeqShutdownEnds (Returns (Some DeadlineExceeded)), SeqClose None]"
  let ?s1 = "the (exec ?evs1 (init False srv0 None))"
  let ?s2 = "the (step SeqExit ?s1)"
  have run: "exec ?evs1 (init False srv0 None) = Some ?s1"
    by (simp add: run_defs srv0_def)
  have leaving: "sequencer ?s1 = SeqLeaving (Returns (Some DeadlineExceeded))"
    by (simp add: run_defs srv0_def)
  have step: "step SeqExit ?s1 = Some ?s2"
    by (simp add: run_defs srv0_def)
  have first: "grp_err ?s1 = None" "\<not> errors_Is DeadlineExceeded ErrServerClosed"
    by (simp_all add: run_defs srv0_def)
  have pc: "server_thread ?s2 = SrvServing"
    by (simp add: run_defs srv0_def)
  have "grp_err ?s1 = None \<and> \<not> errors_Is DeadlineExceeded ErrServerClosed \<longrightarrow>
          (\<forall>r. RunServer False srv0 None
                 (?evs1 @ SeqExit # srv_rest (server_thread ?s2) r @ [MainWait])
               = Some (Some DeadlineExceeded))"
    using shutdown_error_first_is_reported [OF run leaving step] by blast
  then have "\<forall>r. RunServer False srv0 None
                 (?evs1 @ SeqExit # srv_rest (server_thread ?s2) r @ [MainWait])
               = Some (Some DeadlineExceeded)"
    using first by blast
  then show ?thesis unfolding pc by blast
qed


text \<open>
  C3. In every run, once the shutdown goroutine has left its function, by a return (with nil,
  an error or a deadline error of \<open>Shutdown\<close>) or by a panic of \<open>Shutdown\<close>, \<open>srv.Close()\<close>
  has been called exactly once, and it is never called more than once. What \<open>Close\<close> returns
  is dropped: a step, and so the result of \<open>RunServer\<close>, is the same for every value it
  returns.
\<close>

theorem force_close_exactly_once:
  assumes run: "exec evs (init pre srv crtCfg) = Some s"
  shows "(seq_exited (sequencer s) \<longrightarrow> count_list (calls s) Call_Close = 1)
       \<and> count_list (calls s) Call_Close \<le> 1
       \<and> (\<forall>c. RunServer pre srv crtCfg (map (close_returning c) evs)
                = RunServer pre srv crtCfg evs)
       \<and> (\<forall>c c' s0. step (SeqClose c) s0 = step (SeqClose c') s0)"
proof -
  have "filter seq_call (calls s) = seq_log (sequencer s)"
    using run_log_ok [OF run] by (simp add: log_ok_def)
  then have "count_list (seq_log (sequencer s)) Call_Close = count_list (calls s) Call_Close"
    using count_list_filter [of seq_call Call_Close "calls s"] by simp
  then have n: "count_list (calls s) Call_Close = (if seq_exited (sequencer s) then 1 else 0)"
    by (cases "sequencer s") auto
  have "RunServer pre srv crtCfg (map (close_returning c) evs) = RunServer pre srv crtCfg evs"
    for c
    by (simp add: RunServer_def exec_close_returning)
  moreover have "step (SeqClose c) s0 = step (SeqClose c') s0" for c c' s0
    by simp
  ultimately show ?thesis using n by simp
qed

theorem force_close_exactly_once_witness:
  "seq_exited (sequencer (the (exec
      [SrvCall, Sigterm, SeqCallShutdown, SeqShutdownEnds Panics,
       SeqClose (Some (ErrOther ''close'')), SeqExit] (init False srv0 None))))
   \<and> count_list (calls (the (exec
      [SrvCall, Sigterm, SeqCallShutdown, SeqShutdownEnds Panics,
       SeqClose (Some (ErrOther ''close'')), SeqExit] (init False srv0 None)))) Call_Close = 1"
proof -
  let ?evs = "[SrvCall, Sigterm, SeqCallShutdown, SeqShutdownEnds Panics,
               SeqClose (Some (ErrOther ''close'')), SeqExit]"
  let ?s = "the (exec ?evs (init False srv0 None))"
  have run: "exec ?evs (init False srv0 None) = Some ?s"
    by (simp add: run_defs srv0_def)
  have gone: "seq_exited (sequencer ?s)"
    by (simp add: run_defs srv0_def)
  have "seq_exited (sequencer ?s) \<longrightarrow> count_list (calls ?s) Call_Close = 1"
    using force_close_exactly_once [OF run] by (elim conjE)
  then show ?thesis using gone by blast
qed

text \<open>
  C4. The shutdown goroutine cannot call \<open>srv.Shutdown\<close> while the shared context is not
  done. In every run, a call of \<open>Shutdown\<close> that has been made was given the context
  \<open>context.WithTimeout(context.Background(), 3*time.Second)\<close>, which descends from the
  background context and not from the shared one, and the shared context is done; a goroutine
  still waiting has not called \<open>Shutdown\<close>; and when the goroutine has returned \<open>r\<close>, its
  calls were \<open>Shutdown\<close>, which returned that same \<open>r\<close>, then the deferred \<open>cancel\<close> and
  \<open>Close\<close>. (Which value \<open>Shutdown\<close> returns when it drains in time or runs into the
  deadline is \<open>net/http\<close>'s part.)
\<close>

theorem shutdown_after_cancel_on_fresh_deadline:
  assumes run: "exec evs (init pre srv crtCfg) = Some s"
  shows "(\<forall>s0. \<not> ctx_done s0 shared_ctx \<longrightarrow> step SeqCallShutdown s0 = None)
       \<and> (\<forall>c. Call_Shutdown c \<in> set (calls s) \<longrightarrow>
             c = WithTimeout Background 3000000000
             \<and> derived_from Background c \<and> \<not> derived_from shared_ctx c
             \<and> ctx_done s shared_ctx)
       \<and> (sequencer s = SeqWaiting \<longrightarrow> (\<forall>c. Call_Shutdown c \<notin> set (calls s)))
       \<and> (\<forall>r. sequencer s = SeqReturned r \<longrightarrow>
             filter seq_call (calls s) =
               [Call_Shutdown drain_ctx, Shutdown_ended (Returns r),
                Call_cancel drain_ctx, Call_Close])"
proof -
  have inv: "filter seq_call (calls s) = seq_log (sequencer s)"
    "sequencer s \<noteq> SeqWaiting \<longrightarrow> ctx_done s shared_ctx"
    using run_log_ok [OF run] by (simp_all add: log_ok_def)
  have guard: "step SeqCallShutdown s0 = None" if "\<not> ctx_done s0 shared_ctx" for s0
    using that by simp
  have mem: "Call_Shutdown c \<in> set (seq_log (sequencer s))"
    if "Call_Shutdown c \<in> set (calls s)" for c
  proof -
    have "Call_Shutdown c \<in> set (filter seq_call (calls s))" using that by simp
    then show ?thesis using inv(1) by simp
  qed
  have arg: "c = drain_ctx \<and> sequencer s \<noteq> SeqWaiting"
    if "Call_Shutdown c \<in> set (calls s)" for c
    using mem [OF that] by (cases "sequencer s") auto
  have drain: "drain_ctx = WithTimeout Background 3000000000"
    "derived_from Background drain_ctx" "\<not> derived_from shared_ctx drain_ctx"
    by (simp_all add: drain_ctx_def Second_def shared_ctx_def)
  have called: "c = WithTimeout Background 3000000000
             \<and> derived_from Background c \<and> \<not> derived_from shared_ctx c
             \<and> ctx_done s shared_ctx"
    if "Call_Shutdown c \<in> set (calls s)" for c
    using arg [OF that] drain inv(2) by simp
  have waiting: "Call_Shutdown c \<notin> set (calls s)" if "sequencer s = SeqWaiting" for c
    using arg [of c] that by blast
  have returned: "filter seq_call (calls s) =
               [Call_Shutdown drain_ctx, Shutdown_ended (Returns r),
                Call_cancel drain_ctx, Call_Close]"
    if "sequencer s = SeqReturned r" for r
    using inv(1) that by simp
  show ?thesis using guard called waiting returned by blast
qed

theorem shutdown_after_cancel_on_fresh_deadline_witness:
  "Call_Shutdown (WithTimeout Background 3000000000) \<in> set (calls (the (exec
      [SrvCall, Sigterm, SeqCallShutdown, SrvReturn (Some ErrServerClosed),
       SeqShutdownEnds (Returns (Some DeadlineExceeded)), SeqClose None, SeqExit]
      (init False srv0 None))))
   \<and> filter seq_call (calls (the (exec
      [SrvCall, Sigterm, SeqCallShutdown, SrvReturn (Some ErrServerClosed),
       SeqShutdownEnds (Returns (Some DeadlineExceeded)), SeqClose None, SeqExit]
      (init False srv0 None)))) =
     [Call_Shutdown drain_ctx, Shutdown_ended (Returns (Some DeadlineExceeded)),
      Call_cancel drain_ctx, Call_Close]"
proof -
  let ?evs = "[SrvCall, Sigterm, SeqCallShutdown, SrvReturn (Some ErrServerClosed),
               SeqShutdownEnds (Returns (Some DeadlineExceeded)), SeqClose None, SeqExit]"
  let ?s = "the (exec ?evs (init False srv0 None))"
  have run: "exec ?evs (init False srv0 None) = Some ?s"
    by (simp add: run_defs srv0_def)
  have pc: "sequencer ?s = SeqReturned (Some DeadlineExceeded)"
    by (simp add: run_defs srv0_def)
  have called: "Call_Shutdown (WithTimeout Background 3000000000) \<in> set (calls ?s)"
    by (simp add: run_defs srv0_def Second_def)
  have "\<forall>r. sequencer ?s = SeqReturned r \<longrightarrow>
             filter seq_call (calls ?s) =
               [Call_Shutdown drain_ctx, Shutdown_ended (Returns r),
                Call_cancel drain_ctx, Call_Close]"
    using shutdown_after_cancel_on_fresh_deadline [OF run] by (elim conjE)
  then show ?thesis using pc called by blast
qed


end
